theory Spec2Isabelle
  imports Complex_Main
begin

section \<open>Label generator: sheet formats, placement, pagination and label content\<close>

text \<open>
  The development embeds \<^verbatim>\<open>backend/label_generator.py\<close> (the presets
  \<^verbatim>\<open>LABEL_FORMATS\<close> and the class \<^verbatim>\<open>AdvancedLabelGenerator\<close>) and the part
  of \<^verbatim>\<open>backend/main.py\<close> that builds a generator and calls it.

  Conventions of the embedding:
  \<^item> Python integers are \<open>int\<close>; \<open>//\<close> and \<open>%\<close> are \<open>div\<close> and \<open>mod\<close> (both
    round towards minus infinity), and a zero divisor is the error
    \<open>ZeroDivisionError\<close>.
  \<^item> Lengths in points are Python floats; they are embedded as exact \<open>real\<close>
    numbers, so rounding of the binary representation is not part of the model.
  \<^item> The reportlab canvas is the list of the operations issued to it, in order.
  \<^item> The two glyph widgets of reportlab are a parameter: for each string they
    either return or raise.
\<close>

subsection \<open>Units and page sizes of the drawing library\<close>

text \<open>
  \<^verbatim>\<open>reportlab.lib.units\<close> gives \<^verbatim>\<open>inch = 72.0\<close>, \<^verbatim>\<open>cm = inch / 2.54\<close>,
  \<^verbatim>\<open>mm = cm * 0.1\<close>; \<^verbatim>\<open>reportlab.lib.pagesizes\<close> gives
  \<^verbatim>\<open>letter = (8.5*inch, 11*inch)\<close> and \<^verbatim>\<open>A4 = (210*mm, 297*mm)\<close>.
\<close>

definition inch :: real where
  "inch = 72"

definition cm :: real where
  "cm = inch / 2.54"

definition mm :: real where
  "mm = cm * 0.1"

definition letter :: "real \<times> real" where
  "letter = (8.5 * inch, 11 * inch)"

definition A4 :: "real \<times> real" where
  "A4 = (210 * mm, 297 * mm)"

subsection \<open>The presets\<close>

record format_spec =
  name :: string
  label_width :: real
  label_height :: real
  labels_per_row :: int
  labels_per_column :: int
  left_margin :: real
  top_margin :: real
  horizontal_gap :: real
  vertical_gap :: real

definition avery5160 :: format_spec where
  "avery5160 = \<lparr>name = ''Avery 5160 (30 labels)'',
     label_width = 2.625 * inch, label_height = 1 * inch,
     labels_per_row = 3, labels_per_column = 10,
     left_margin = 0.1875 * inch, top_margin = 0.5 * inch,
     horizontal_gap = 0.125 * inch, vertical_gap = 0\<rparr>"

definition avery5161 :: format_spec where
  "avery5161 = \<lparr>name = ''Avery 5161 (20 labels)'',
     label_width = 4 * inch, label_height = 1 * inch,
     labels_per_row = 2, labels_per_column = 10,
     left_margin = 0.15625 * inch, top_margin = 0.5 * inch,
     horizontal_gap = 0.1875 * inch, vertical_gap = 0\<rparr>"

definition avery5163 :: format_spec where
  "avery5163 = \<lparr>name = ''Avery 5163 (10 labels)'',
     label_width = 4 * inch, label_height = 2 * inch,
     labels_per_row = 2, labels_per_column = 5,
     left_margin = 0.15625 * inch, top_margin = 0.5 * inch,
     horizontal_gap = 0.1875 * inch, vertical_gap = 0\<rparr>"

text \<open>The dictionary \<^verbatim>\<open>LABEL_FORMATS\<close>: a key is present iff the map is \<open>Some\<close>.\<close>

definition LABEL_FORMATS :: "string \<rightharpoonup> format_spec" where
  "LABEL_FORMATS = map_of
     [(''avery5160'', avery5160), (''avery5161'', avery5161), (''avery5163'', avery5163)]"

subsection \<open>Errors\<close>

text \<open>
  \<open>ValueError\<close> carries its message. \<open>Raised e\<close> is an exception \<open>e\<close> raised inside
  one of the glyph widgets; the generator has no \<^verbatim>\<open>try\<close>, so it leaves
  \<^verbatim>\<open>generate_pdf\<close> as it is.
\<close>

datatype 'e error = ValueError string | ZeroDivisionError | Raised 'e

datatype 'e outcome = Returns | Raises 'e

record 'e glyph_library =
  QrCodeWidget :: "string \<Rightarrow> 'e outcome"
  Code128 :: "string \<Rightarrow> 'e outcome"

subsection \<open>The generator object\<close>

text \<open>
  The attributes set by \<^verbatim>\<open>__init__\<close>: the geometry copied from the preset
  (the field \<open>name\<close> is the attribute \<^verbatim>\<open>format_name\<close>) and the request.
\<close>

record generator = format_spec +
  start_code :: int
  end_code :: int
  code_type :: string
  prefix :: string
  suffix :: string

text \<open>\<^verbatim>\<open>str.lower\<close> on the ASCII letters, the only ones that matter for the
  comparison with \<^verbatim>\<open>'qrcode'\<close>.\<close>

definition lower_char :: "char \<Rightarrow> char" where
  "lower_char ch =
     (case map_of (zip ''ABCDEFGHIJKLMNOPQRSTUVWXYZ'' ''abcdefghijklmnopqrstuvwxyz'') ch of
        Some l \<Rightarrow> l
      | None \<Rightarrow> ch)"

definition lower :: "string \<Rightarrow> string" where
  "lower s = map lower_char s"

definition init :: "int \<Rightarrow> int \<Rightarrow> string \<Rightarrow> string \<Rightarrow> string \<Rightarrow> string
                     \<Rightarrow> 'e error + generator" where
  "init start_code' end_code' code_type' label_format prefix' suffix' =
     (case LABEL_FORMATS label_format of
        Some format_spec' \<Rightarrow>
          Inr \<lparr>name = name format_spec',
               label_width = label_width format_spec',
               label_height = label_height format_spec',
               labels_per_row = labels_per_row format_spec',
               labels_per_column = labels_per_column format_spec',
               left_margin = left_margin format_spec',
               top_margin = top_margin format_spec',
               horizontal_gap = horizontal_gap format_spec',
               vertical_gap = vertical_gap format_spec',
               start_code = start_code',
               end_code = end_code',
               code_type = lower code_type',
               prefix = prefix',
               suffix = suffix'\<rparr>
      | None \<Rightarrow> Inl (ValueError (''Unknown label format: '' @ label_format)))"

subsection \<open>Formatting a code\<close>

text \<open>\<^verbatim>\<open>str\<close> of a Python integer: decimal digits, most significant first, with
  a minus sign for a negative value.\<close>

definition digit_char :: "nat \<Rightarrow> char" where
  "digit_char d = ''0123456789'' ! d"

function str_nat :: "nat \<Rightarrow> string" where
  "str_nat n = (if n < 10 then [digit_char n] else str_nat (n div 10) @ [digit_char (n mod 10)])"
  by pat_completeness auto
termination
  by (relation "measure (\<lambda>n. n)") auto

declare str_nat.simps [simp del]

definition str_int :: "int \<Rightarrow> string" where
  "str_int i = (if i < 0 then CHR ''-'' # str_nat (nat (- i)) else str_nat (nat i))"

definition format_code :: "('a generator_scheme) \<Rightarrow> int \<Rightarrow> string" where
  "format_code g code_value = prefix g @ str_int code_value @ suffix g"

subsection \<open>The canvas\<close>

text \<open>
  \<open>Drawing w h v\<close> is the \<^verbatim>\<open>Drawing(size, size, ...)\<close> holding the QR widget of
  the string \<open>v\<close>. The operations are the calls the generator makes on the
  canvas: \<^verbatim>\<open>setFont\<close>, \<^verbatim>\<open>drawCentredString\<close>, \<^verbatim>\<open>renderPDF.draw\<close>, the
  barcode's \<^verbatim>\<open>drawOn\<close> (with the value, \<^verbatim>\<open>barHeight\<close> and \<^verbatim>\<open>barWidth\<close> the
  barcode was built with), \<^verbatim>\<open>showPage\<close> and \<^verbatim>\<open>save\<close>.
\<close>

datatype drawing = Drawing real real string

datatype canvas_op =
    SetFont string nat
  | DrawCentredString real real string
  | RenderDrawing drawing real real
  | BarcodeDrawOn string real real real real
  | ShowPage
  | Save

type_synonym canvas = "canvas_op list"

subsection \<open>Drawing one label\<close>

text \<open>The sizes \<^verbatim>\<open>draw_label\<close> derives from the label, named as its local
  variables are.\<close>

definition qr_size :: "('a format_spec_scheme) \<Rightarrow> real" where
  "qr_size g = min (label_width g * 0.7) (label_height g * 0.7)"

definition barcode_width :: "('a format_spec_scheme) \<Rightarrow> real" where
  "barcode_width g = label_width g - 0.2 * inch"

definition barcode_height :: "('a format_spec_scheme) \<Rightarrow> real" where
  "barcode_height g = label_height g * 0.5"

definition generate_qrcode ::
  "'e glyph_library \<Rightarrow> ('a generator_scheme) \<Rightarrow> int \<Rightarrow> real \<Rightarrow> 'e error + drawing" where
  "generate_qrcode lib g code_value size' =
     (let formatted_code = format_code g code_value
      in case QrCodeWidget lib formatted_code of
           Raises e \<Rightarrow> Inl (Raised e)
         | Returns \<Rightarrow> Inr (Drawing size' size' formatted_code))"

definition draw_label ::
  "'e glyph_library \<Rightarrow> ('a generator_scheme) \<Rightarrow> canvas \<Rightarrow> real \<Rightarrow> real \<Rightarrow> int
     \<Rightarrow> ('e error + unit) \<times> canvas" where
  "draw_label lib g c x y code_value =
     (let formatted_code = format_code g code_value;
          c1 = c @ [SetFont ''Helvetica-Bold'' 9];
          text_x = x + label_width g / 2;
          text_y = y + label_height g - 0.15 * inch;
          c2 = c1 @ [DrawCentredString text_x text_y (''ID: '' @ formatted_code)]
      in if code_type g = ''qrcode'' then
           (let qr_x = x + (label_width g - qr_size g) / 2;
                qr_y = y + 0.1 * inch
            in case generate_qrcode lib g code_value (qr_size g) of
                 Inl e \<Rightarrow> (Inl e, c2)
               | Inr qr_drawing \<Rightarrow> (Inr (), c2 @ [RenderDrawing qr_drawing qr_x qr_y]))
         else
           (let barcode_x = x + (label_width g - barcode_width g) / 2;
                barcode_y = y + 0.2 * inch
            in case Code128 lib formatted_code of
                 Raises e \<Rightarrow> (Inl (Raised e), c2)
               | Returns \<Rightarrow>
                   (Inr (), c2 @ [BarcodeDrawOn formatted_code (barcode_height g * 0.8) 0.9
                                    barcode_x barcode_y])))"

subsection \<open>Generating the document\<close>

text \<open>
  The sheet capacity \<^verbatim>\<open>labels_per_row * labels_per_column\<close>, which the source
  writes out at each use, and the four assignments \<open>row\<close>, \<open>col\<close>, \<open>x\<close>, \<open>y\<close> at
  the head of the loop body.
\<close>

definition per_sheet :: "('a format_spec_scheme) \<Rightarrow> int" where
  "per_sheet g = labels_per_row g * labels_per_column g"

definition position :: "('a format_spec_scheme) \<Rightarrow> real \<Rightarrow> int \<Rightarrow> real \<times> real" where
  "position g page_height label_count =
     (let row = (label_count mod (labels_per_row g * labels_per_column g)) div labels_per_row g;
          col = label_count mod labels_per_row g;
          x = left_margin g + of_int col * (label_width g + horizontal_gap g);
          y = page_height - top_margin g - of_int (row + 1) * label_height g
                - of_int row * vertical_gap g
      in (x, y))"

text \<open>
  The \<^verbatim>\<open>for\<close> loop of \<^verbatim>\<open>generate_pdf\<close>, by recursion on the codes still to
  draw; \<open>label_count\<close> and the canvas are the loop's state. The first \<open>%\<close>
  raises when the sheet capacity is zero, and an exception of \<^verbatim>\<open>draw_label\<close>
  ends the loop.
\<close>

fun generate_loop ::
  "'e glyph_library \<Rightarrow> ('a generator_scheme) \<Rightarrow> real \<Rightarrow> int list \<Rightarrow> int \<Rightarrow> canvas
     \<Rightarrow> ('e error + int) \<times> canvas" where
  "generate_loop lib g page_height [] label_count c = (Inr label_count, c)"
| "generate_loop lib g page_height (code # codes) label_count c =
     (if labels_per_row g * labels_per_column g = 0 then (Inl ZeroDivisionError, c)
      else
        (let (x, y) = position g page_height label_count
         in case draw_label lib g c x y code of
              (Inl e, c') \<Rightarrow> (Inl e, c')
            | (Inr u, c') \<Rightarrow>
                (let label_count' = label_count + 1;
                     c'' = (if label_count' mod (labels_per_row g * labels_per_column g) = 0
                            then c' @ [ShowPage] else c')
                 in generate_loop lib g page_height codes label_count' c'')))"

text \<open>
  \<^verbatim>\<open>generate_pdf\<close> returns the pair \<^verbatim>\<open>(len(codes), total_pages)\<close> or raises; the
  model also gives the canvas as it is at that moment. The range
  \<^verbatim>\<open>range(start_code, end_code + 1)\<close> is the list \<open>[start_code..end_code]\<close>, empty
  when \<open>end_code < start_code\<close>. The output file name only reaches the canvas
  and is left out.
\<close>

definition generate_pdf ::
  "'e glyph_library \<Rightarrow> ('a generator_scheme) \<Rightarrow> real \<times> real
     \<Rightarrow> ('e error + int \<times> int) \<times> canvas" where
  "generate_pdf lib g page_size =
     (let c = [];
          (page_width, page_height) = page_size;
          codes = [start_code g..end_code g]
      in case generate_loop lib g page_height codes 0 c of
           (Inl e, c') \<Rightarrow> (Inl e, c')
         | (Inr label_count, c') \<Rightarrow>
             (let c'' = c' @ [Save]
              in if labels_per_row g * labels_per_column g = 0
                 then (Inl ZeroDivisionError, c'')
                 else (Inr (int (length codes),
                            (int (length codes) - 1)
                              div (labels_per_row g * labels_per_column g) + 1), c'')))"

subsection \<open>The service call\<close>

text \<open>
  \<^verbatim>\<open>generate_labels\<close> of \<^verbatim>\<open>main.py\<close>, without the validators of the request
  model, the file name and the HTTP reply: the page size is chosen, the
  generator is built, the document is generated. No canvas exists until
  \<^verbatim>\<open>generate_pdf\<close> runs, so an error of \<^verbatim>\<open>__init__\<close> comes with the empty list
  of operations.
\<close>

definition generate_labels ::
  "'e glyph_library \<Rightarrow> int \<Rightarrow> int \<Rightarrow> string \<Rightarrow> string \<Rightarrow> string \<Rightarrow> string \<Rightarrow> string
     \<Rightarrow> ('e error + int \<times> int) \<times> canvas" where
  "generate_labels lib start_code' end_code' code_type' label_format prefix' suffix' page_size' =
     (let page_size = (if page_size' = ''a4'' then A4 else letter)
      in case init start_code' end_code' code_type' label_format prefix' suffix' of
           Inl e \<Rightarrow> (Inl e, [])
         | Inr generator \<Rightarrow> generate_pdf lib generator page_size)"

subsection \<open>Notions used to state the properties\<close>

text \<open>The glyph widget \<^verbatim>\<open>draw_label\<close> calls for a code, and what it does there.\<close>

definition glyph_call :: "'e glyph_library \<Rightarrow> ('a generator_scheme) \<Rightarrow> int \<Rightarrow> 'e outcome" where
  "glyph_call lib g code_value =
     (if code_type g = ''qrcode'' then QrCodeWidget lib (format_code g code_value)
      else Code128 lib (format_code g code_value))"

text \<open>The operations of one label at \<open>(x, y)\<close>: the text, then the glyph.\<close>

definition text_ops :: "('a generator_scheme) \<Rightarrow> real \<Rightarrow> real \<Rightarrow> int \<Rightarrow> canvas" where
  "text_ops g x y code_value =
     [SetFont ''Helvetica-Bold'' 9,
      DrawCentredString (x + label_width g / 2) (y + label_height g - 0.15 * inch)
        (''ID: '' @ format_code g code_value)]"

definition glyph_op :: "('a generator_scheme) \<Rightarrow> real \<Rightarrow> real \<Rightarrow> int \<Rightarrow> canvas_op" where
  "glyph_op g x y code_value =
     (if code_type g = ''qrcode''
      then RenderDrawing (Drawing (qr_size g) (qr_size g) (format_code g code_value))
             (x + (label_width g - qr_size g) / 2) (y + 0.1 * inch)
      else BarcodeDrawOn (format_code g code_value) (barcode_height g * 0.8) 0.9
             (x + (label_width g - barcode_width g) / 2) (y + 0.2 * inch))"

text \<open>
  What a reader of the document sees of the canvas: a label is complete when
  its glyph has been drawn, and \<^verbatim>\<open>showPage\<close> ends the page.
\<close>

datatype event = LabelDrawn | PageBreak

fun events :: "canvas \<Rightarrow> event list" where
  "events [] = []"
| "events (RenderDrawing d x y # ops) = LabelDrawn # events ops"
| "events (BarcodeDrawOn v h w x y # ops) = LabelDrawn # events ops"
| "events (ShowPage # ops) = PageBreak # events ops"
| "events (SetFont f n # ops) = events ops"
| "events (DrawCentredString x y t # ops) = events ops"
| "events (Save # ops) = events ops"

definition page_break_after_final_label :: "canvas \<Rightarrow> bool" where
  "page_break_after_final_label ops = (events ops \<noteq> [] \<and> last (events ops) = PageBreak)"

text \<open>The events of \<open>m\<close> turns of the loop that starts with \<open>label_count = lc\<close> on
  sheets of \<open>p\<close> labels.\<close>

fun loop_events :: "int \<Rightarrow> int \<Rightarrow> nat \<Rightarrow> event list" where
  "loop_events p lc 0 = []"
| "loop_events p lc (Suc m) =
     LabelDrawn # (if (lc + 1) mod p = 0 then [PageBreak] else []) @ loop_events p (lc + 1) m"

text \<open>A library whose widgets accept every string.\<close>

definition always_returns :: "unit glyph_library" where
  "always_returns = \<lparr>QrCodeWidget = (\<lambda>s. Returns), Code128 = (\<lambda>s. Returns)\<rparr>"

text \<open>A library whose widgets raise \<open>err\<close> on the string \<open>v\<close> and accept every
  other string.\<close>

definition raises_on :: "string \<Rightarrow> 'e \<Rightarrow> 'e glyph_library" where
  "raises_on v err = \<lparr>QrCodeWidget = (\<lambda>s. if s = v then Raises err else Returns),
                      Code128 = (\<lambda>s. if s = v then Raises err else Returns)\<rparr>"

text \<open>The generator of the request \<^verbatim>\<open>{start_code: 100, end_code: 120, code_type:
  "qrcode", label_format: "avery5163", prefix: "QR-", suffix: "-2024"}\<close>.\<close>

definition qr_generator :: generator where
  "qr_generator =
     \<lparr>name = ''Avery 5163 (10 labels)'',
      label_width = 4 * inch, label_height = 2 * inch,
      labels_per_row = 2, labels_per_column = 5,
      left_margin = 0.15625 * inch, top_margin = 0.5 * inch,
      horizontal_gap = 0.1875 * inch, vertical_gap = 0,
      start_code = 100, end_code = 120, code_type = ''qrcode'',
      prefix = ''QR-'', suffix = ''-2024''\<rparr>"

text \<open>The number a string of decimal digits denotes, read from the left.\<close>

definition digit_value :: "char \<Rightarrow> nat" where
  "digit_value ch = of_char ch - 48"

definition decimal_value :: "string \<Rightarrow> nat" where
  "decimal_value ds = foldl (\<lambda>acc ch. 10 * acc + digit_value ch) 0 ds"

text \<open>The decimal numeral of \<open>n\<close>: digits only, no leading zero unless it is the
  numeral \<open>0\<close> itself, and value \<open>n\<close>.\<close>

definition decimal_numeral :: "string \<Rightarrow> nat \<Rightarrow> bool" where
  "decimal_numeral ds n =
     (ds \<noteq> [] \<and> set ds \<subseteq> set ''0123456789'' \<and> (hd ds = CHR ''0'' \<longrightarrow> ds = ''0'')
      \<and> decimal_value ds = n)"

text \<open>The placement algorithm as the specification words it (section 4.3):
  \<open>columnsPerSheet\<close> is \<open>labels_per_row\<close>, \<open>rowsPerSheet\<close> is \<open>labels_per_column\<close>.\<close>

definition placementFor :: "('a format_spec_scheme) \<Rightarrow> int \<Rightarrow> real \<Rightarrow> int \<times> int \<times> real \<times> real" where
  "placementFor format' index' pageHeight =
     (let perSheet = labels_per_row format' * labels_per_column format';
          indexOnSheet = index' mod perSheet;
          row = indexOnSheet div labels_per_row format';
          col = indexOnSheet mod labels_per_row format';
          x = left_margin format' + of_int col * (label_width format' + horizontal_gap format');
          y = pageHeight - top_margin format' - of_int (row + 1) * label_height format'
                - of_int row * vertical_gap format'
      in (row, col, x, y))"

section \<open>Properties\<close>

subsection \<open>One label\<close>

lemma draw_label_Returns:
  "glyph_call lib g cv = Returns \<Longrightarrow>
   draw_label lib g c x y cv = (Inr (), c @ text_ops g x y cv @ [glyph_op g x y cv])"
  by (auto simp: draw_label_def glyph_call_def text_ops_def glyph_op_def generate_qrcode_def
      Let_def split: outcome.splits if_splits)

lemma draw_label_Raises:
  "glyph_call lib g cv = Raises e \<Longrightarrow>
   draw_label lib g c x y cv = (Inl (Raised e), c @ text_ops g x y cv)"
  by (auto simp: draw_label_def glyph_call_def text_ops_def generate_qrcode_def
      Let_def split: outcome.splits if_splits)

subsection \<open>The loop when every glyph is drawn\<close>

lemma events_append: "events (xs @ ys) = events xs @ events ys"
  by (induction xs rule: events.induct) simp_all

lemma events_text_ops: "events (text_ops g x y cv) = []"
  by (simp add: text_ops_def)

lemma events_glyph_op: "events [glyph_op g x y cv] = [LabelDrawn]"
  by (simp add: glyph_op_def)

lemma Save_text_ops: "Save \<notin> set (text_ops g x y cv)"
  by (simp add: text_ops_def)

lemma Save_glyph_op: "Save \<noteq> glyph_op g x y cv"
  by (simp add: glyph_op_def)

lemma generate_loop_Returns:
  assumes "per_sheet g \<noteq> 0" and "\<forall>cv\<in>set codes. glyph_call lib g cv = Returns"
  shows "\<exists>ops. generate_loop lib g ph codes lc c = (Inr (lc + int (length codes)), c @ ops)
           \<and> events ops = loop_events (per_sheet g) lc (length codes)
           \<and> Save \<notin> set ops
           \<and> (codes \<noteq> [] \<and> (lc + int (length codes)) mod per_sheet g = 0 \<longrightarrow> ops \<noteq> [] \<and> last ops = ShowPage)"
  using assms(2)
proof (induction codes arbitrary: lc c)
  case Nil
  then show ?case by simp
next
  case (Cons cv codes)
  obtain x y where xy: "position g ph lc = (x, y)" by (cases "position g ph lc")
  define c' where "c' = c @ text_ops g x y cv @ [glyph_op g x y cv]"
  define br where "br = (if (lc + 1) mod per_sheet g = 0 then [ShowPage] else [])"
  have ret: "glyph_call lib g cv = Returns" using Cons.prems by simp
  from Cons.IH[of "lc + 1" "c' @ br"] Cons.prems
  obtain ops where ops: "generate_loop lib g ph codes (lc + 1) (c' @ br)
        = (Inr (lc + 1 + int (length codes)), (c' @ br) @ ops)"
     "events ops = loop_events (per_sheet g) (lc + 1) (length codes)"
     "Save \<notin> set ops"
     "codes \<noteq> [] \<and> (lc + 1 + int (length codes)) mod per_sheet g = 0 \<longrightarrow> ops \<noteq> [] \<and> last ops = ShowPage"
    by auto
  have step: "generate_loop lib g ph (cv # codes) lc c = generate_loop lib g ph codes (lc + 1) (c' @ br)"
    using assms(1) by (simp add: per_sheet_def xy draw_label_Returns[OF ret] c'_def br_def)
  let ?ops = "text_ops g x y cv @ [glyph_op g x y cv] @ br @ ops"
  have 1: "generate_loop lib g ph (cv # codes) lc c = (Inr (lc + int (length (cv # codes))), c @ ?ops)"
    unfolding step ops(1) by (simp add: c'_def add.assoc)
  have 2: "events ?ops = loop_events (per_sheet g) lc (length (cv # codes))"
    by (simp add: events_append events_text_ops ops(2) br_def glyph_op_def)
  have 3: "Save \<notin> set ?ops"
    using ops(3) by (simp add: Save_text_ops Save_glyph_op br_def)
  have 4: "(lc + int (length (cv # codes))) mod per_sheet g = 0 \<longrightarrow> ?ops \<noteq> [] \<and> last ?ops = ShowPage"
  proof (cases "codes = []")
    case True
    then have "ops = []" using ops(1) by simp
    then show ?thesis using True by (simp add: br_def)
  next
    case False
    have eq: "lc + int (length (cv # codes)) = lc + 1 + int (length codes)" by simp
    show ?thesis
    proof
      assume "(lc + int (length (cv # codes))) mod per_sheet g = 0"
      then have "ops \<noteq> [] \<and> last ops = ShowPage"
        using ops(4) False unfolding eq by simp
      then show "?ops \<noteq> [] \<and> last ?ops = ShowPage" by simp
    qed
  qed
  show ?case using 1 2 3 4 by blast
qed

lemma generate_pdf_Returns:
  assumes "per_sheet g \<noteq> 0"
    and "\<forall>cv\<in>{start_code g..end_code g}. glyph_call lib g cv = Returns"
  shows "\<exists>ops. generate_pdf lib g ps =
             (Inr (int (length [start_code g..end_code g]),
                   (int (length [start_code g..end_code g]) - 1) div per_sheet g + 1),
              ops @ [Save])
           \<and> events ops = loop_events (per_sheet g) 0 (length [start_code g..end_code g])
           \<and> Save \<notin> set ops
           \<and> ([start_code g..end_code g] \<noteq> []
                \<and> int (length [start_code g..end_code g]) mod per_sheet g = 0
              \<longrightarrow> ops \<noteq> [] \<and> last ops = ShowPage)"
proof -
  have "\<forall>cv\<in>set [start_code g..end_code g]. glyph_call lib g cv = Returns"
    using assms(2) by simp
  from generate_loop_Returns[OF assms(1) this, of "snd ps" 0 "[]"]
  obtain ops where ops:
    "generate_loop lib g (snd ps) [start_code g..end_code g] 0 []
       = (Inr (0 + int (length [start_code g..end_code g])), [] @ ops)"
    "events ops = loop_events (per_sheet g) 0 (length [start_code g..end_code g])"
    "Save \<notin> set ops"
    "[start_code g..end_code g] \<noteq> []
       \<and> (0 + int (length [start_code g..end_code g])) mod per_sheet g = 0
     \<longrightarrow> ops \<noteq> [] \<and> last ops = ShowPage"
    by blast
  have "generate_pdf lib g ps =
             (Inr (int (length [start_code g..end_code g]),
                   (int (length [start_code g..end_code g]) - 1) div per_sheet g + 1),
              ops @ [Save])"
    using assms(1) ops(1) by (simp add: generate_pdf_def per_sheet_def split_beta)
  then show ?thesis using ops(2,3,4) by auto
qed

lemma init_Inr:
  assumes "init s e t f px sx = Inr g"
  shows "per_sheet g \<in> {10, 20, 30}" and "start_code g = s" and "end_code g = e"
    and "prefix g = px" and "suffix g = sx" and "code_type g = lower t"
    and "LABEL_FORMATS f = Some (format_spec.truncate g)"
  using assms
  by (auto simp: init_def LABEL_FORMATS_def per_sheet_def avery5160_def avery5161_def
      avery5163_def format_spec.truncate_def split: if_splits)

subsection \<open>The loop when a glyph fails\<close>

lemma generate_loop_append:
  "generate_loop lib g ph (xs @ ys) lc c =
     (case generate_loop lib g ph xs lc c of
        (Inl e, c') \<Rightarrow> (Inl e, c')
      | (Inr lc', c') \<Rightarrow> generate_loop lib g ph ys lc' c')"
  by (induction xs arbitrary: lc c) (auto simp: Let_def split: prod.splits sum.splits)

lemma generate_loop_Raises:
  assumes "per_sheet g \<noteq> 0" and "\<forall>cv\<in>set xs. glyph_call lib g cv = Returns"
    and "glyph_call lib g cv = Raises e"
  shows "\<exists>ops. (\<forall>ys. generate_loop lib g ph (xs @ cv # ys) lc c = (Inl (Raised e), c @ ops))
           \<and> events ops = loop_events (per_sheet g) lc (length xs)
           \<and> Save \<notin> set ops"
proof -
  from generate_loop_Returns[OF assms(1,2), of ph lc c]
  obtain ops where ops:
    "generate_loop lib g ph xs lc c = (Inr (lc + int (length xs)), c @ ops)"
    "events ops = loop_events (per_sheet g) lc (length xs)"
    "Save \<notin> set ops"
    by blast
  obtain x y where xy: "position g ph (lc + int (length xs)) = (x, y)"
    by (cases "position g ph (lc + int (length xs))")
  have "generate_loop lib g ph (cv # ys) (lc + int (length xs)) (c @ ops)
          = (Inl (Raised e), (c @ ops) @ text_ops g x y cv)" for ys
    using assms(1) by (simp add: per_sheet_def xy draw_label_Raises[OF assms(3)])
  then have "\<forall>ys. generate_loop lib g ph (xs @ cv # ys) lc c
          = (Inl (Raised e), c @ ops @ text_ops g x y cv)"
    unfolding generate_loop_append ops(1) by simp
  moreover have "events (ops @ text_ops g x y cv) = loop_events (per_sheet g) lc (length xs)"
    by (simp add: events_append events_text_ops ops(2))
  moreover have "Save \<notin> set (ops @ text_ops g x y cv)"
    using ops(3) by (simp add: Save_text_ops)
  ultimately show ?thesis by blast
qed

lemma generate_loop_end_code:
  "generate_loop lib (g\<lparr>end_code := z\<rparr>) ph codes lc c = generate_loop lib g ph codes lc c"
proof (induction codes arbitrary: lc c)
  case Nil
  show ?case by simp
next
  case (Cons cv codes)
  have d: "draw_label lib (g\<lparr>end_code := z\<rparr>) c x y cv = draw_label lib g c x y cv" for x y
    by (simp add: draw_label_def format_code_def generate_qrcode_def qr_size_def
        barcode_width_def barcode_height_def Let_def split: outcome.splits sum.splits)
  have p: "position (g\<lparr>end_code := z\<rparr>) ph lc = position g ph lc"
    by (simp add: position_def)
  show ?case
    by (simp add: d p Cons.IH Let_def split: prod.splits sum.splits)
qed

lemma count_loop_events:
  "length (filter (\<lambda>ev. ev = LabelDrawn) (loop_events p lc m)) = m"
  by (induction m arbitrary: lc) simp_all

lemma pages_ceiling:
  fixes n p :: int
  assumes "0 < p"
  shows "(n - 1) div p + 1 = \<lceil>of_int n / (of_int p :: real)\<rceil>"
proof -
  define q where "q = (n - 1) div p"
  define r where "r = (n - 1) mod p"
  have n: "n = q * p + r + 1"
    unfolding q_def r_def by simp
  have r: "0 \<le> r" "r < p"
    unfolding r_def using assms by simp_all
  have pr: "0 < (of_int p :: real)"
    using assms by simp
  have eq: "of_int n / (of_int p :: real) = of_int q + of_int (r + 1) / of_int p"
    using pr by (simp add: n field_simps)
  have lo: "0 < of_int (r + 1) / (of_int p :: real)"
    using r pr by simp
  have hi: "of_int (r + 1) / (of_int p :: real) \<le> 1"
    using r pr by simp
  have "\<lceil>of_int n / (of_int p :: real)\<rceil> = q + 1"
  proof (rule ceiling_unique)
    show "of_int (q + 1) - 1 < of_int n / (of_int p :: real)"
      using lo by (simp add: eq)
    show "of_int n / (of_int p :: real) \<le> of_int (q + 1)"
      using hi by (simp add: eq)
  qed
  then show ?thesis by (simp add: q_def)
qed

lemma first_failure:
  assumes "cv \<in> {s..e}" and "glyph_call lib g cv \<noteq> Returns"
  obtains c err where "s \<le> c" and "c \<le> cv" and "glyph_call lib g c = Raises err"
    and "\<forall>k\<in>{s..<c}. glyph_call lib g k = Returns"
proof -
  define P where "P n = (glyph_call lib g (s + int n) \<noteq> Returns)" for n
  define m where "m = (LEAST n. P n)"
  have "P (nat (cv - s))"
    using assms by (simp add: P_def)
  then have Pm: "P m" and le: "m \<le> nat (cv - s)"
    unfolding m_def by (rule LeastI, rule Least_le)
  have before: "\<not> P n" if "n < m" for n
    using that unfolding m_def by (rule not_less_Least)
  obtain err where err: "glyph_call lib g (s + int m) = Raises err"
    using Pm unfolding P_def by (cases "glyph_call lib g (s + int m)") auto
  have "\<forall>k\<in>{s..<s + int m}. glyph_call lib g k = Returns"
  proof
    fix k assume k: "k \<in> {s..<s + int m}"
    then have "nat (k - s) < m" by auto
    from before[OF this] k show "glyph_call lib g k = Returns"
      by (simp add: P_def)
  qed
  moreover have "s \<le> s + int m" "s + int m \<le> cv"
    using le assms(1) by auto
  ultimately show ?thesis using err that by blast
qed

lemma generate_pdf_Raises:
  assumes "per_sheet g \<noteq> 0" and "start_code g \<le> c" and "c \<le> end_code g"
    and "glyph_call lib g c = Raises err"
    and "\<forall>k\<in>{start_code g..<c}. glyph_call lib g k = Returns"
  shows "\<exists>ops. generate_pdf lib g ps = (Inl (Raised err), ops)
           \<and> generate_pdf lib (g\<lparr>end_code := c\<rparr>) ps = (Inl (Raised err), ops)
           \<and> events ops = loop_events (per_sheet g) 0 (nat (c - start_code g))
           \<and> Save \<notin> set ops"
proof -
  let ?xs = "[start_code g..c - 1]"
  have all: "[start_code g..end_code g] = ?xs @ c # [c + 1..end_code g]"
    using assms(2,3) by (rule upto_split3)
  have upto_c: "[start_code g..c] = ?xs @ c # []"
    using upto_split3[OF assms(2) order_refl] by simp
  have ret: "\<forall>cv\<in>set ?xs. glyph_call lib g cv = Returns"
    using assms(5) by simp
  from generate_loop_Raises[OF assms(1) ret assms(4), of "snd ps" 0 "[]"]
  obtain ops where ops:
    "\<And>ys. generate_loop lib g (snd ps) (?xs @ c # ys) 0 [] = (Inl (Raised err), [] @ ops)"
    "events ops = loop_events (per_sheet g) 0 (length ?xs)"
    "Save \<notin> set ops"
    by blast
  have 1: "generate_pdf lib g ps = (Inl (Raised err), ops)"
    by (simp add: generate_pdf_def split_beta all ops(1))
  have 2: "generate_pdf lib (g\<lparr>end_code := c\<rparr>) ps = (Inl (Raised err), ops)"
    by (simp add: generate_pdf_def split_beta upto_c generate_loop_end_code ops(1))
  have 3: "length ?xs = nat (c - start_code g)"
    by simp
  show ?thesis using 1 2 3 ops(2,3) by auto
qed

subsection \<open>Claims on the generated document\<close>

text \<open>
  C10. When \<open>end_code < start_code\<close> the generator raises nothing: no label is
  drawn, no page break is emitted, the document is saved, and the result is
  0 labels on 0 pages.
\<close>

theorem generate_pdf_empty_range:
  assumes "init s e t f px sx = Inr g" and "e < s"
  shows "generate_pdf lib g ps = (Inr (0, 0), [Save])"
proof -
  have g: "start_code g = s" "end_code g = e" "per_sheet g \<in> {10, 20, 30}"
    using init_Inr[OF assms(1)] by simp_all
  have codes: "[start_code g..end_code g] = []"
    using assms(2) g by simp
  have "per_sheet g \<noteq> 0" "(- 1) div per_sheet g + 1 = 0"
    using g(3) by auto
  then show ?thesis
    by (simp add: generate_pdf_def codes per_sheet_def split_beta)
qed

theorem generate_pdf_empty_range_witness:
  "(50::int) < 100
   \<and> generate_labels always_returns 100 50 ''barcode'' ''avery5160'' '''' '''' ''letter''
       = (Inr (0, 0), [Save])"
proof -
  obtain g where g: "(init 100 50 ''barcode'' ''avery5160'' [] [] :: unit error + generator) = Inr g"
    by (simp add: init_def LABEL_FORMATS_def)
  have "(50::int) < 100" by simp
  from generate_pdf_empty_range[OF g this, of always_returns letter] g
  show ?thesis by (simp add: generate_labels_def)
qed

text \<open>
  C2. For a request with \<open>start_code \<le> end_code\<close> on a registered format,
  \<^verbatim>\<open>generate_pdf\<close> returns \<open>end_code - start_code + 1\<close> labels and
  \<open>\<lceil>labels / per_sheet\<rceil>\<close> pages: it returns them whenever every glyph of the
  range is drawn, and it returns nothing else.
\<close>

theorem generate_pdf_totals:
  assumes "init s e t f px sx = Inr g" and "s \<le> e"
  shows "((\<forall>cv\<in>{s..e}. glyph_call lib g cv = Returns) \<longrightarrow>
            fst (generate_pdf lib g ps)
              = Inr (e - s + 1, \<lceil>of_int (e - s + 1) / (of_int (per_sheet g) :: real)\<rceil>))
       \<and> (\<forall>r. fst (generate_pdf lib g ps) = Inr r \<longrightarrow>
            r = (e - s + 1, \<lceil>of_int (e - s + 1) / (of_int (per_sheet g) :: real)\<rceil>))"
proof -
  have g: "start_code g = s" "end_code g = e" "per_sheet g \<in> {10, 20, 30}"
    using init_Inr[OF assms(1)] by simp_all
  have p: "per_sheet g \<noteq> 0" "0 < per_sheet g"
    using g(3) by auto
  have len: "int (length [start_code g..end_code g]) = e - s + 1"
    using assms(2) g by simp
  have ok: "fst (generate_pdf lib g ps)
              = Inr (e - s + 1, \<lceil>of_int (e - s + 1) / (of_int (per_sheet g) :: real)\<rceil>)"
    if "\<forall>cv\<in>{s..e}. glyph_call lib g cv = Returns"
  proof -
    from that have "\<forall>cv\<in>{start_code g..end_code g}. glyph_call lib g cv = Returns"
      by (simp add: g)
    from generate_pdf_Returns[OF p(1) this, of ps]
    obtain ops where "generate_pdf lib g ps =
        (Inr (int (length [start_code g..end_code g]),
              (int (length [start_code g..end_code g]) - 1) div per_sheet g + 1), ops @ [Save])"
      by blast
    then have "fst (generate_pdf lib g ps) = Inr (e - s + 1, (e - s + 1 - 1) div per_sheet g + 1)"
      unfolding len by simp
    then show ?thesis
      unfolding pages_ceiling[OF p(2), of "e - s + 1"] .
  qed
  have all_ret: "\<forall>cv\<in>{s..e}. glyph_call lib g cv = Returns"
    if "fst (generate_pdf lib g ps) = Inr r" for r
  proof (rule ccontr)
    assume "\<not> (\<forall>cv\<in>{s..e}. glyph_call lib g cv = Returns)"
    then obtain cv where cv: "cv \<in> {s..e}" "glyph_call lib g cv \<noteq> Returns" by blast
    from first_failure[OF this] obtain c err where c: "s \<le> c" "c \<le> cv"
      "glyph_call lib g c = Raises err" "\<forall>k\<in>{s..<c}. glyph_call lib g k = Returns"
      by blast
    have "start_code g \<le> c" "c \<le> end_code g" "\<forall>k\<in>{start_code g..<c}. glyph_call lib g k = Returns"
      using c cv(1) by (simp_all add: g)
    from generate_pdf_Raises[OF p(1) this(1,2) c(3) this(3), of ps]
    have "fst (generate_pdf lib g ps) = Inl (Raised err)" by auto
    with that show False by simp
  qed
  have "r = (e - s + 1, \<lceil>of_int (e - s + 1) / (of_int (per_sheet g) :: real)\<rceil>)"
    if "fst (generate_pdf lib g ps) = Inr r" for r
    using ok[OF all_ret[OF that]] that by simp
  with ok show ?thesis by (intro conjI impI allI)
qed

theorem generate_pdf_totals_witness:
  "fst (generate_labels always_returns 1 10 ''barcode'' ''avery5160'' ''TEST-'' '''' ''letter'')
     = Inr (10, 1)
   \<and> fst (generate_labels always_returns 1 30 ''barcode'' ''avery5160'' ''TEST-'' '''' ''letter'')
     = Inr (30, 1)
   \<and> fst (generate_labels always_returns 1 31 ''barcode'' ''avery5160'' ''TEST-'' '''' ''letter'')
     = Inr (31, 2)"
proof -
  have run: "fst (generate_labels always_returns 1 e ''barcode'' ''avery5160'' ''TEST-'' '''' ''letter'')
               = Inr (e, \<lceil>of_int e / (30 :: real)\<rceil>)" if "1 \<le> e" for e
  proof -
    obtain g where g: "(init 1 e ''barcode'' ''avery5160'' ''TEST-'' [] :: unit error + generator) = Inr g"
      by (simp add: init_def LABEL_FORMATS_def)
    have p: "per_sheet g = 30"
      using g by (auto simp: init_def LABEL_FORMATS_def avery5160_def per_sheet_def)
    have ret: "\<forall>cv\<in>{1..e}. glyph_call always_returns g cv = Returns"
      by (simp add: glyph_call_def always_returns_def)
    from generate_pdf_totals[OF g that, of always_returns letter, THEN conjunct1, THEN mp, OF ret]
    have "fst (generate_pdf always_returns g letter) = Inr (e, \<lceil>of_int e / (30 :: real)\<rceil>)"
      by (simp add: p)
    then show ?thesis using g by (simp add: generate_labels_def)
  qed
  have c10: "\<lceil>10 / (30 :: real)\<rceil> = 1"
    by (rule ceiling_unique) simp_all
  have c30: "\<lceil>30 / (30 :: real)\<rceil> = 1"
    by simp
  have c31: "\<lceil>31 / (30 :: real)\<rceil> = 2"
    by (rule ceiling_unique) simp_all
  from run[of 10] run[of 30] run[of 31] show ?thesis
    by (simp only: of_int_numeral c10 c30 c31)
qed

text \<open>
  C7. When a glyph widget does not return for some code of the range, the
  exception \<open>err\<close> that the widget raised at the first such code \<open>c\<close> is the
  outcome of \<^verbatim>\<open>generate_pdf\<close>, exactly as the widget raised it: the generator
  neither wraps it nor adds the formatted value to it. No result is returned.
  Exactly the
  \<open>c - start_code\<close> labels before \<open>c\<close> have been drawn, the canvas is never
  saved, and the codes after \<open>c\<close> play no part: the run is the run of the
  range that ends at \<open>c\<close>.
\<close>

theorem glyph_failure_aborts:
  assumes "init s e t f px sx = Inr g" and "cv \<in> {s..e}" and "glyph_call lib g cv \<noteq> Returns"
  shows "\<exists>c err ops. s \<le> c \<and> c \<le> cv
           \<and> glyph_call lib g c = Raises err
           \<and> (\<forall>k\<in>{s..<c}. glyph_call lib g k = Returns)
           \<and> generate_pdf lib g ps = (Inl (Raised err), ops)
           \<and> generate_pdf lib (g\<lparr>end_code := c\<rparr>) ps = (Inl (Raised err), ops)
           \<and> length (filter (\<lambda>ev. ev = LabelDrawn) (events ops)) = nat (c - s)
           \<and> Save \<notin> set ops"
proof -
  have g: "start_code g = s" "end_code g = e" "per_sheet g \<in> {10, 20, 30}"
    using init_Inr[OF assms(1)] by simp_all
  have p: "per_sheet g \<noteq> 0"
    using g(3) by auto
  from first_failure[OF assms(2,3)] obtain c err where c: "s \<le> c" "c \<le> cv"
    "glyph_call lib g c = Raises err" "\<forall>k\<in>{s..<c}. glyph_call lib g k = Returns"
    by blast
  have "start_code g \<le> c" "c \<le> end_code g"
    "\<forall>k\<in>{start_code g..<c}. glyph_call lib g k = Returns"
    using c assms(2) by (simp_all add: g)
  from generate_pdf_Raises[OF p this(1,2) c(3) this(3), of ps]
  obtain ops where ops: "generate_pdf lib g ps = (Inl (Raised err), ops)"
    "generate_pdf lib (g\<lparr>end_code := c\<rparr>) ps = (Inl (Raised err), ops)"
    "events ops = loop_events (per_sheet g) 0 (nat (c - start_code g))"
    "Save \<notin> set ops"
    by blast
  have "length (filter (\<lambda>ev. ev = LabelDrawn) (events ops)) = nat (c - s)"
    unfolding ops(3) count_loop_events g(1) ..
  with c ops(1,2,4) show ?thesis by blast
qed

theorem glyph_failure_aborts_witness:
  "(102::int) \<in> {100..120}
   \<and> QrCodeWidget (raises_on ''QR-102-2024'' ''boom'') ''QR-102-2024'' \<noteq> Returns
   \<and> fst (generate_labels (raises_on ''QR-102-2024'' ''boom'') 100 120 ''qrcode'' ''avery5163''
            ''QR-'' ''-2024'' ''letter'')
       = Inl (Raised ''boom'')
   \<and> Save \<notin> set (snd (generate_labels (raises_on ''QR-102-2024'' ''boom'') 100 120 ''qrcode''
                          ''avery5163'' ''QR-'' ''-2024'' ''letter''))"
proof -
  let ?lib = "raises_on ''QR-102-2024'' ''boom''"
  obtain g where g: "(init 100 120 ''qrcode'' ''avery5163'' ''QR-'' ''-2024''
                        :: string error + generator) = Inr g"
    by (simp add: init_def LABEL_FORMATS_def)
  have call: "glyph_call ?lib g k = QrCodeWidget ?lib (''QR-'' @ str_int k @ ''-2024'')" for k
    using g by (auto simp: init_def LABEL_FORMATS_def glyph_call_def format_code_def
        lower_def lower_char_def)
  have in_range: "(102::int) \<in> {100..120}" by simp
  have fails: "glyph_call ?lib g 102 \<noteq> Returns"
    unfolding call by (simp add: raises_on_def str_int_def str_nat.simps digit_char_def)
  from glyph_failure_aborts[OF g in_range fails, of letter]
  obtain c err ops where c: "glyph_call ?lib g c = Raises err"
    and run: "generate_pdf ?lib g letter = (Inl (Raised err), ops)"
    and save: "Save \<notin> set ops"
    by blast
  have "err = ''boom''"
    using c unfolding call by (simp add: raises_on_def split: if_splits)
  with run save g show ?thesis
    by (simp add: generate_labels_def raises_on_def)
qed

text \<open>
  Two requests whose first failing values differ, \<open>''T-3''\<close> and \<open>''U-2''\<close>, end
  with the same error, the one the widget raised: the error that leaves
  \<^verbatim>\<open>generate_pdf\<close> does not tell the value that could not be encoded.
\<close>

theorem glyph_error_holds_no_value_counterexample:
  "Code128 (raises_on ''T-3'' ''boom'') ''T-3'' = Raises ''boom''
   \<and> Code128 (raises_on ''U-2'' ''boom'') ''U-2'' = Raises ''boom''
   \<and> fst (generate_labels (raises_on ''T-3'' ''boom'') 1 5 ''barcode'' ''avery5163'' ''T-'' ''''
            ''letter'')
       = Inl (Raised ''boom'')
   \<and> fst (generate_labels (raises_on ''U-2'' ''boom'') 1 5 ''barcode'' ''avery5163'' ''U-'' ''''
            ''letter'')
       = Inl (Raised ''boom'')"
proof -
  have run: "fst (generate_labels (raises_on (px @ str_int c) ''boom'') 1 5 ''barcode''
                    ''avery5163'' px '''' ''letter'') = Inl (Raised ''boom'')"
    if c: "1 \<le> c" "c \<le> 5" and others: "\<forall>k\<in>{1..<c}. px @ str_int k \<noteq> px @ str_int c"
    for px c
  proof -
    let ?lib = "raises_on (px @ str_int c) ''boom''"
    obtain g where g: "(init 1 5 ''barcode'' ''avery5163'' px '''' :: string error + generator)
                         = Inr g"
      by (simp add: init_def LABEL_FORMATS_def)
    have gs: "start_code g = 1" "end_code g = 5" "per_sheet g \<noteq> 0"
      using init_Inr[OF g] by auto
    have call: "glyph_call ?lib g k = Code128 ?lib (px @ str_int k)" for k
      using g by (auto simp: init_def LABEL_FORMATS_def glyph_call_def format_code_def
          lower_def lower_char_def)
    have 1: "start_code g \<le> c" "c \<le> end_code g"
      using c by (simp_all add: gs)
    have 2: "glyph_call ?lib g c = Raises ''boom''"
      unfolding call by (simp add: raises_on_def)
    have 3: "\<forall>k\<in>{start_code g..<c}. glyph_call ?lib g k = Returns"
      unfolding call gs using others by (simp add: raises_on_def)
    from generate_pdf_Raises[OF gs(3) 1 2 3, of letter]
    have "fst (generate_pdf ?lib g letter) = Inl (Raised ''boom'')" by auto
    then show ?thesis using g by (simp add: generate_labels_def)
  qed
  have s: "str_int 1 = ''1''" "str_int 2 = ''2''" "str_int 3 = ''3''"
    by (simp_all add: str_int_def str_nat.simps digit_char_def)
  have t: "\<forall>k\<in>{1..<3::int}. ''T-'' @ str_int k \<noteq> ''T-'' @ str_int 3"
  proof
    fix k :: int assume "k \<in> {1..<3}"
    then have "k = 1 \<or> k = 2" by auto
    then show "''T-'' @ str_int k \<noteq> ''T-'' @ str_int 3" by (auto simp: s)
  qed
  have u: "\<forall>k\<in>{1..<2::int}. ''U-'' @ str_int k \<noteq> ''U-'' @ str_int 2"
  proof
    fix k :: int assume "k \<in> {1..<2}"
    then have "k = 1" by auto
    then show "''U-'' @ str_int k \<noteq> ''U-'' @ str_int 2" by (simp add: s)
  qed
  from run[of 3 "''T-''", OF _ _ t] run[of 2 "''U-''", OF _ _ u]
  show ?thesis by (simp add: s raises_on_def)
qed

subsection \<open>The page breaks of the loop\<close>

lemma loop_events_snoc:
  "loop_events p lc (Suc m) =
     loop_events p lc m @ LabelDrawn # (if (lc + int m + 1) mod p = 0 then [PageBreak] else [])"
proof (induction m arbitrary: lc)
  case 0
  show ?case by simp
next
  case (Suc m)
  have "loop_events p lc (Suc (Suc m)) =
          LabelDrawn # (if (lc + 1) mod p = 0 then [PageBreak] else [])
            @ loop_events p (lc + 1) (Suc m)"
    by simp
  also have "loop_events p (lc + 1) (Suc m) =
          loop_events p (lc + 1) m
            @ LabelDrawn # (if (lc + 1 + int m + 1) mod p = 0 then [PageBreak] else [])"
    by (rule Suc.IH)
  finally show ?case
    by (simp add: add.assoc add.commute add.left_commute)
qed

lemma concat_replicate_Suc:
  "concat (replicate (Suc k) b) = concat (replicate k b) @ b"
  by (induction k) simp_all

lemma loop_events_closed:
  assumes "0 < p"
  shows "loop_events (int p) 0 n =
           concat (replicate (n div p) (replicate p LabelDrawn @ [PageBreak]))
             @ replicate (n mod p) LabelDrawn"
proof (induction n)
  case 0
  show ?case by simp
next
  case (Suc n)
  have brk: "((0 + int n + 1) mod int p = 0) = (Suc n mod p = 0)"
  proof -
    have "(0 + int n + 1) mod int p = int (Suc n mod p)"
      by (simp add: zmod_int add.commute)
    then show ?thesis by simp
  qed
  show ?case
  proof (cases "Suc n mod p = 0")
    case True
    then have m: "Suc (n mod p) = p" and d: "Suc n div p = Suc (n div p)"
      by (auto simp: mod_Suc div_Suc split: if_splits)
    have "replicate p LabelDrawn = replicate (n mod p) LabelDrawn @ [LabelDrawn]"
      by (subst m[symmetric]) (simp add: replicate_append_same)
    then show ?thesis
      unfolding loop_events_snoc Suc.IH brk d concat_replicate_Suc
      using True by simp
  next
    case False
    then have m: "Suc n mod p = Suc (n mod p)" and d: "Suc n div p = n div p"
      by (auto simp: mod_Suc div_Suc split: if_splits)
    show ?thesis
      unfolding loop_events_snoc Suc.IH brk d m
      using False by (simp add: replicate_append_same)
  qed
qed

lemma generate_pdf_events:
  assumes "init s e t f px sx = Inr g"
    and "\<forall>cv\<in>{s..e}. glyph_call lib g cv = Returns"
  shows "events (snd (generate_pdf lib g ps)) =
           concat (replicate (nat (e - s + 1) div nat (per_sheet g))
                     (replicate (nat (per_sheet g)) LabelDrawn @ [PageBreak]))
             @ replicate (nat (e - s + 1) mod nat (per_sheet g)) LabelDrawn"
proof -
  have g: "start_code g = s" "end_code g = e" "per_sheet g \<in> {10, 20, 30}"
    using init_Inr[OF assms(1)] by simp_all
  have p: "per_sheet g \<noteq> 0" "0 < nat (per_sheet g)" "int (nat (per_sheet g)) = per_sheet g"
    using g(3) by auto
  have "\<forall>cv\<in>{start_code g..end_code g}. glyph_call lib g cv = Returns"
    using assms(2) by (simp add: g)
  from generate_pdf_Returns[OF p(1) this, of ps]
  obtain ops where ops: "snd (generate_pdf lib g ps) = ops @ [Save]"
    "events ops = loop_events (per_sheet g) 0 (length [start_code g..end_code g])"
    by auto
  have "events (snd (generate_pdf lib g ps)) = loop_events (int (nat (per_sheet g))) 0 (nat (e - s + 1))"
    unfolding p(3) by (simp add: ops events_append g)
  then show ?thesis
    unfolding loop_events_closed[OF p(2)] .
qed

text \<open>
  C1. For a request whose range holds \<open>k\<close> full sheets and whose glyphs are all
  drawn, the canvas receives \<open>k\<close> times the labels of one sheet followed by
  \<^verbatim>\<open>showPage\<close>: a page break comes exactly after each \<open>per_sheet\<close>-th label, the
  one after the final label included. That \<^verbatim>\<open>showPage\<close> is the last operation
  before \<^verbatim>\<open>save\<close>, so nothing is left for a further page, and \<open>k\<close> pages are
  reported.
\<close>

theorem full_sheets_page_breaks:
  assumes "init s e t f px sx = Inr g" and "s \<le> e" and "e - s + 1 = k * per_sheet g"
    and "\<forall>cv\<in>{s..e}. glyph_call lib g cv = Returns"
  shows "\<exists>ops. generate_pdf lib g ps = (Inr (k * per_sheet g, k), ops @ [ShowPage, Save])
           \<and> Save \<notin> set ops
           \<and> events (ops @ [ShowPage]) =
               concat (replicate (nat k) (replicate (nat (per_sheet g)) LabelDrawn @ [PageBreak]))"
proof -
  have g: "start_code g = s" "end_code g = e" "per_sheet g \<in> {10, 20, 30}"
    using init_Inr[OF assms(1)] by simp_all
  have p: "per_sheet g \<noteq> 0" "0 < per_sheet g"
    using g(3) by auto
  have k: "0 < k"
  proof (rule ccontr)
    assume "\<not> 0 < k"
    then have "k * per_sheet g \<le> 0" using p(2) by (simp add: mult_le_0_iff)
    with assms(2,3) show False by simp
  qed
  have len: "int (length [start_code g..end_code g]) = k * per_sheet g"
    using assms(2,3) g by simp
  have nonempty: "[start_code g..end_code g] \<noteq> []"
    using assms(2) g by simp
  have pages: "(k * per_sheet g - 1) div per_sheet g + 1 = k"
    using pages_ceiling[OF p(2), of "k * per_sheet g"] p by simp
  have "\<forall>cv\<in>{start_code g..end_code g}. glyph_call lib g cv = Returns"
    using assms(4) by (simp add: g)
  from generate_pdf_Returns[OF p(1) this, of ps]
  obtain ops where ops:
    "generate_pdf lib g ps = (Inr (k * per_sheet g, k), ops @ [Save])"
    "Save \<notin> set ops"
    "ops \<noteq> [] \<and> last ops = ShowPage"
    unfolding len pages using nonempty by auto
  have split: "ops = butlast ops @ [ShowPage]"
    using ops(3) append_butlast_last_id[of ops] by simp
  have 1: "generate_pdf lib g ps = (Inr (k * per_sheet g, k), butlast ops @ [ShowPage, Save])"
    using ops(1) by (subst (asm) split) simp
  have 2: "Save \<notin> set (butlast ops)"
    using ops(2) by (auto dest: in_set_butlastD)
  have n: "nat (e - s + 1) div nat (per_sheet g) = nat k" "nat (e - s + 1) mod nat (per_sheet g) = 0"
    unfolding assms(3) using p(2) k by (simp_all add: nat_mult_distrib)
  have "events (snd (generate_pdf lib g ps)) =
          concat (replicate (nat k) (replicate (nat (per_sheet g)) LabelDrawn @ [PageBreak]))"
    unfolding generate_pdf_events[OF assms(1,4)] n by simp
  then have 3: "events (butlast ops @ [ShowPage]) =
          concat (replicate (nat k) (replicate (nat (per_sheet g)) LabelDrawn @ [PageBreak]))"
    unfolding 1 by (simp add: events_append)
  from 1 2 3 show ?thesis by blast
qed

theorem full_sheets_page_breaks_witness:
  "(1::int) \<le> 20 \<and> (20::int) - 1 + 1 = 2 * 10
   \<and> fst (generate_labels always_returns 1 20 ''barcode'' ''avery5163'' '''' '''' ''letter'')
       = Inr (20, 2)
   \<and> events (snd (generate_labels always_returns 1 20 ''barcode'' ''avery5163'' '''' '''' ''letter''))
       = replicate 10 LabelDrawn @ [PageBreak] @ replicate 10 LabelDrawn @ [PageBreak]"
proof -
  obtain g where g: "(init 1 20 ''barcode'' ''avery5163'' [] [] :: unit error + generator) = Inr g"
    by (simp add: init_def LABEL_FORMATS_def)
  have p: "per_sheet g = 10"
    using g by (auto simp: init_def LABEL_FORMATS_def avery5163_def per_sheet_def)
  have ret: "\<forall>cv\<in>{1..20}. glyph_call always_returns g cv = Returns"
    by (simp add: glyph_call_def always_returns_def)
  have le: "(1::int) \<le> 20" and k: "(20::int) - 1 + 1 = 2 * per_sheet g"
    by (simp_all add: p)
  from full_sheets_page_breaks[OF g le k ret, of letter]
  obtain ops where ops: "generate_pdf always_returns g letter = (Inr (20, 2), ops @ [ShowPage, Save])"
    "events (ops @ [ShowPage]) = concat (replicate 2 (replicate 10 LabelDrawn @ [PageBreak]))"
    unfolding p by auto
  have "events (ops @ [ShowPage, Save]) = events (ops @ [ShowPage])"
    by (simp add: events_append)
  with ops g show ?thesis
    by (simp add: generate_labels_def numeral_2_eq_2)
qed

text \<open>
  Ten labels fill the one sheet of the preset of ten: the last event on the
  canvas is the page break that follows the tenth label.
\<close>

theorem page_break_after_final_label_counterexample:
  "page_break_after_final_label
     (snd (generate_labels always_returns 1 10 ''barcode'' ''avery5163'' '''' '''' ''letter''))"
proof -
  obtain g where g: "(init 1 10 ''barcode'' ''avery5163'' [] [] :: unit error + generator) = Inr g"
    by (simp add: init_def LABEL_FORMATS_def)
  have p: "per_sheet g = 10"
    using g by (auto simp: init_def LABEL_FORMATS_def avery5163_def per_sheet_def)
  have ret: "\<forall>cv\<in>{1..10}. glyph_call always_returns g cv = Returns"
    by (simp add: glyph_call_def always_returns_def)
  have "events (snd (generate_pdf always_returns g letter)) = replicate 10 LabelDrawn @ [PageBreak]"
    unfolding generate_pdf_events[OF g ret] p by simp
  then show ?thesis using g
    by (simp add: page_break_after_final_label_def generate_labels_def)
qed

subsection \<open>Formatting\<close>

lemma digit_char_cases:
  fixes d :: nat
  assumes "d < 10"
  shows "d \<in> {0, 1, 2, 3, 4, 5, 6, 7, 8, 9}"
  using assms by auto

lemma digit_value_digit_char: "d < 10 \<Longrightarrow> digit_value (digit_char d) = d"
  by (drule digit_char_cases) (auto simp: digit_value_def digit_char_def)

lemma digit_char_in_digits: "d < 10 \<Longrightarrow> digit_char d \<in> set ''0123456789''"
  by (drule digit_char_cases) (auto simp: digit_char_def)

lemma digit_char_zero: "d < 10 \<Longrightarrow> (digit_char d = CHR ''0'') = (d = 0)"
  by (drule digit_char_cases) (auto simp: digit_char_def)

lemma decimal_value_snoc:
  "decimal_value (ds @ [ch]) = 10 * decimal_value ds + digit_value ch"
  by (simp add: decimal_value_def)

lemma str_nat_nonempty: "str_nat n \<noteq> []"
  by (subst str_nat.simps) simp

lemma decimal_value_str_nat: "decimal_value (str_nat n) = n"
proof (induction n rule: str_nat.induct)
  case (1 n)
  show ?case
  proof (cases "n < 10")
    case True
    then show ?thesis
      by (subst str_nat.simps) (simp add: decimal_value_def digit_value_digit_char)
  next
    case False
    with 1 have "decimal_value (str_nat (n div 10)) = n div 10" by simp
    with False show ?thesis
      by (subst str_nat.simps) (simp add: decimal_value_snoc digit_value_digit_char)
  qed
qed

lemma str_nat_digits: "set (str_nat n) \<subseteq> set ''0123456789''"
proof (induction n rule: str_nat.induct)
  case (1 n)
  show ?case
  proof (cases "n < 10")
    case True
    then show ?thesis
      using digit_char_in_digits[of n] by (subst str_nat.simps) simp
  next
    case False
    with 1 have "set (str_nat (n div 10)) \<subseteq> set ''0123456789''" by simp
    moreover have "digit_char (n mod 10) \<in> set ''0123456789''"
      by (rule digit_char_in_digits) simp
    ultimately show ?thesis
      using False by (subst str_nat.simps) simp
  qed
qed

lemma str_nat_no_leading_zero: "hd (str_nat n) = CHR ''0'' \<Longrightarrow> n = 0"
proof (induction n rule: str_nat.induct)
  case (1 n)
  show ?case
  proof (cases "n < 10")
    case True
    with 1(2) show ?thesis
      by (subst (asm) str_nat.simps) (simp add: digit_char_zero)
  next
    case False
    with 1(2) have "hd (str_nat (n div 10)) = CHR ''0''"
      by (subst (asm) str_nat.simps) (simp add: str_nat_nonempty)
    with 1(1) False have "n div 10 = 0" by simp
    with False show ?thesis by simp
  qed
qed

lemma digit_char_digit_value:
  assumes "ch \<in> set ''0123456789''"
  shows "digit_value ch < 10" and "digit_char (digit_value ch) = ch"
    and "(digit_value ch = 0) = (ch = CHR ''0'')"
  using assms by (auto simp: digit_value_def digit_char_def)

lemma decimal_value_Cons:
  "decimal_value (ch # cs) = digit_value ch * 10 ^ length cs + decimal_value cs"
proof -
  define f where "f = (\<lambda>acc ch. 10 * acc + digit_value ch)"
  have step: "foldl f a (cs @ [c]) = 10 * foldl f a cs + digit_value c" for a cs c
    by (simp add: f_def)
  have shift: "foldl f a cs = a * 10 ^ length cs + foldl f 0 cs" for a
  proof (induction cs rule: rev_induct)
    case Nil
    show ?case by simp
  next
    case (snoc c cs)
    show ?case
      unfolding step snoc.IH by (simp add: algebra_simps)
  qed
  have "decimal_value (ch # cs) = foldl f (digit_value ch) cs"
    by (simp add: decimal_value_def f_def)
  also have "\<dots> = digit_value ch * 10 ^ length cs + foldl f 0 cs"
    by (rule shift)
  finally show ?thesis
    by (simp add: decimal_value_def f_def)
qed

lemma decimal_value_zero_hd:
  assumes "ds \<noteq> []" and "set ds \<subseteq> set ''0123456789''" and "decimal_value ds = 0"
  shows "hd ds = CHR ''0''"
proof -
  obtain ch cs where ds: "ds = ch # cs" using assms(1) by (cases ds) auto
  have "ch \<in> set ''0123456789''" using assms(2) ds by simp
  moreover have "digit_value ch = 0"
    using assms(3) unfolding ds decimal_value_Cons by simp
  ultimately show ?thesis
    using digit_char_digit_value(3)[of ch] ds by simp
qed

lemma str_nat_decimal_numeral: "decimal_numeral (str_nat n) n"
proof -
  have "str_nat n = ''0''" if "hd (str_nat n) = CHR ''0''"
  proof -
    from str_nat_no_leading_zero[OF that] have "n = 0" .
    then show ?thesis by (simp add: str_nat.simps digit_char_def)
  qed
  then show ?thesis
    unfolding decimal_numeral_def
    using str_nat_nonempty[of n] str_nat_digits[of n] decimal_value_str_nat[of n] by blast
qed

lemma decimal_numeral_unique:
  "decimal_numeral ds n \<Longrightarrow> ds = str_nat n"
proof (induction ds arbitrary: n rule: rev_induct)
  case Nil
  then show ?case by (simp add: decimal_numeral_def)
next
  case (snoc ch ds)
  from snoc.prems have digits: "set ds \<subseteq> set ''0123456789''" and ch: "ch \<in> set ''0123456789''"
    and canon: "hd (ds @ [ch]) = CHR ''0'' \<longrightarrow> ds @ [ch] = ''0''"
    and n: "n = 10 * decimal_value ds + digit_value ch"
    by (simp_all add: decimal_numeral_def decimal_value_snoc)
  note d = digit_char_digit_value[OF ch]
  show ?case
  proof (cases "ds = []")
    case True
    then have "n < 10" using n d(1) by (simp add: decimal_value_def)
    moreover have "n = digit_value ch" using n True by (simp add: decimal_value_def)
    ultimately show ?thesis
      using True d(2) by (subst str_nat.simps) simp
  next
    case False
    then have hd: "hd ds \<noteq> CHR ''0''"
      using canon by auto
    then have "decimal_numeral ds (decimal_value ds)"
      using False digits by (simp add: decimal_numeral_def)
    then have IH: "ds = str_nat (decimal_value ds)"
      by (rule snoc.IH)
    have "decimal_value ds \<noteq> 0"
      using decimal_value_zero_hd[OF False digits] hd by blast
    then have "\<not> n < 10" and "n div 10 = decimal_value ds" and "n mod 10 = digit_value ch"
      using n d(1) by simp_all
    then show ?thesis
      using IH d(2) by (subst str_nat.simps) simp
  qed
qed

text \<open>
  C5. \<^verbatim>\<open>format_code\<close> is exactly the prefix, the decimal numeral of the value
  and the suffix, for every integer and all strings: a minus sign for a
  negative value, then the one string of digits without a leading zero whose
  value is the absolute value. The two examples of the specification are
  instances.
\<close>

theorem format_code_decimal:
  "\<exists>ds. format_code g v = prefix g @ (if v < 0 then ''-'' else '''') @ ds @ suffix g
        \<and> decimal_numeral ds (nat \<bar>v\<bar>)
        \<and> (\<forall>ds'. decimal_numeral ds' (nat \<bar>v\<bar>) \<longrightarrow> ds' = ds)
        \<and> format_code (g\<lparr>prefix := ''TEST-'', suffix := ''''\<rparr>) 42 = ''TEST-42''
        \<and> format_code (g\<lparr>prefix := '''', suffix := ''-2024''\<rparr>) 7 = ''7-2024''"
proof -
  let ?ds = "str_nat (nat \<bar>v\<bar>)"
  have 1: "format_code g v = prefix g @ (if v < 0 then ''-'' else '''') @ ?ds @ suffix g"
    by (simp add: format_code_def str_int_def)
  have 2: "decimal_numeral ?ds (nat \<bar>v\<bar>)"
    by (rule str_nat_decimal_numeral)
  have 3: "\<forall>ds'. decimal_numeral ds' (nat \<bar>v\<bar>) \<longrightarrow> ds' = ?ds"
    using decimal_numeral_unique by blast
  have 4: "format_code (g\<lparr>prefix := ''TEST-'', suffix := ''''\<rparr>) 42 = ''TEST-42''"
    by (simp add: format_code_def str_int_def str_nat.simps digit_char_def)
  have 5: "format_code (g\<lparr>prefix := '''', suffix := ''-2024''\<rparr>) 7 = ''7-2024''"
    by (simp add: format_code_def str_int_def str_nat.simps digit_char_def)
  from 1 2 3 4 5 show ?thesis by blast
qed

theorem format_code_decimal_witness:
  "decimal_numeral ''0'' 0 \<and> decimal_numeral ''120'' 120
   \<and> format_code qr_generator 0 = ''QR-0-2024''
   \<and> format_code qr_generator (- 120) = ''QR--120-2024''"
proof -
  have pre: "prefix qr_generator = ''QR-''" "suffix qr_generator = ''-2024''"
    by (simp_all add: qr_generator_def)
  have n0: "decimal_numeral ''0'' 0" and n120: "decimal_numeral ''120'' 120"
    by (simp_all add: decimal_numeral_def decimal_value_def digit_value_def)
  from format_code_decimal[of qr_generator 0]
  obtain ds where ds: "format_code qr_generator 0 = ''QR-'' @ ds @ ''-2024''"
    and u: "\<forall>ds'. decimal_numeral ds' 0 \<longrightarrow> ds' = ds"
    by (auto simp: pre)
  from u n0 have "ds = ''0''" by auto
  with ds have r0: "format_code qr_generator 0 = ''QR-0-2024''" by simp
  from format_code_decimal[of qr_generator "- 120"]
  obtain es where es: "format_code qr_generator (- 120) = ''QR--'' @ es @ ''-2024''"
    and v: "\<forall>ds'. decimal_numeral ds' 120 \<longrightarrow> ds' = es"
    by (auto simp: pre)
  from v n120 have "es = ''120''" by auto
  with es have "format_code qr_generator (- 120) = ''QR--120-2024''" by simp
  with n0 n120 r0 show ?thesis by simp
qed

subsection \<open>Resolving the format\<close>

text \<open>
  C6. For an identifier that is not a key of \<^verbatim>\<open>LABEL_FORMATS\<close> the constructor
  raises the \<^verbatim>\<open>ValueError\<close> whose message names the identifier, and the
  service call ends with that error before any canvas operation. For the three
  registered identifiers the constructor returns the generator with the
  geometry of its preset.
\<close>

theorem unknown_format_rejected:
  "(f \<notin> {''avery5160'', ''avery5161'', ''avery5163''} \<longrightarrow>
      init s e t f px sx = Inl (ValueError (''Unknown label format: '' @ f))
      \<and> generate_labels lib s e t f px sx pz
          = (Inl (ValueError (''Unknown label format: '' @ f)), []))
   \<and> init s e t ''avery5160'' px sx =
        Inr \<lparr>name = ''Avery 5160 (30 labels)'',
             label_width = 2.625 * inch, label_height = 1 * inch,
             labels_per_row = 3, labels_per_column = 10,
             left_margin = 0.1875 * inch, top_margin = 0.5 * inch,
             horizontal_gap = 0.125 * inch, vertical_gap = 0,
             start_code = s, end_code = e, code_type = lower t, prefix = px, suffix = sx\<rparr>
   \<and> init s e t ''avery5161'' px sx =
        Inr \<lparr>name = ''Avery 5161 (20 labels)'',
             label_width = 4 * inch, label_height = 1 * inch,
             labels_per_row = 2, labels_per_column = 10,
             left_margin = 0.15625 * inch, top_margin = 0.5 * inch,
             horizontal_gap = 0.1875 * inch, vertical_gap = 0,
             start_code = s, end_code = e, code_type = lower t, prefix = px, suffix = sx\<rparr>
   \<and> init s e t ''avery5163'' px sx =
        Inr \<lparr>name = ''Avery 5163 (10 labels)'',
             label_width = 4 * inch, label_height = 2 * inch,
             labels_per_row = 2, labels_per_column = 5,
             left_margin = 0.15625 * inch, top_margin = 0.5 * inch,
             horizontal_gap = 0.1875 * inch, vertical_gap = 0,
             start_code = s, end_code = e, code_type = lower t, prefix = px, suffix = sx\<rparr>"
proof -
  have unknown: "LABEL_FORMATS f = None" if "f \<notin> {''avery5160'', ''avery5161'', ''avery5163''}"
    using that by (simp add: LABEL_FORMATS_def)
  have 1: "init s e t f px sx = Inl (ValueError (''Unknown label format: '' @ f))"
    if "f \<notin> {''avery5160'', ''avery5161'', ''avery5163''}"
    by (simp add: init_def unknown[OF that])
  have 2: "generate_labels lib s e t f px sx pz
          = (Inl (ValueError (''Unknown label format: '' @ f)), [])"
    if "f \<notin> {''avery5160'', ''avery5161'', ''avery5163''}"
    by (simp add: generate_labels_def init_def unknown[OF that])
  have 3: "init s e t ''avery5160'' px sx =
        Inr \<lparr>name = ''Avery 5160 (30 labels)'',
             label_width = 2.625 * inch, label_height = 1 * inch,
             labels_per_row = 3, labels_per_column = 10,
             left_margin = 0.1875 * inch, top_margin = 0.5 * inch,
             horizontal_gap = 0.125 * inch, vertical_gap = 0,
             start_code = s, end_code = e, code_type = lower t, prefix = px, suffix = sx\<rparr>"
    by (simp add: init_def LABEL_FORMATS_def avery5160_def)
  have 4: "init s e t ''avery5161'' px sx =
        Inr \<lparr>name = ''Avery 5161 (20 labels)'',
             label_width = 4 * inch, label_height = 1 * inch,
             labels_per_row = 2, labels_per_column = 10,
             left_margin = 0.15625 * inch, top_margin = 0.5 * inch,
             horizontal_gap = 0.1875 * inch, vertical_gap = 0,
             start_code = s, end_code = e, code_type = lower t, prefix = px, suffix = sx\<rparr>"
    by (simp add: init_def LABEL_FORMATS_def avery5161_def)
  have 5: "init s e t ''avery5163'' px sx =
        Inr \<lparr>name = ''Avery 5163 (10 labels)'',
             label_width = 4 * inch, label_height = 2 * inch,
             labels_per_row = 2, labels_per_column = 5,
             left_margin = 0.15625 * inch, top_margin = 0.5 * inch,
             horizontal_gap = 0.1875 * inch, vertical_gap = 0,
             start_code = s, end_code = e, code_type = lower t, prefix = px, suffix = sx\<rparr>"
    by (simp add: init_def LABEL_FORMATS_def avery5163_def)
  from 1 2 3 4 5 show ?thesis by (intro conjI impI)
qed

theorem unknown_format_rejected_witness:
  "''avery9999'' \<notin> {''avery5160'', ''avery5161'', ''avery5163''}
   \<and> generate_labels always_returns 1 10 ''barcode'' ''avery9999'' '''' '''' ''letter''
       = (Inl (ValueError ''Unknown label format: avery9999''), [])"
proof -
  have h: "''avery9999'' \<notin> {''avery5160'', ''avery5161'', ''avery5163''}"
    by simp
  have "generate_labels always_returns 1 10 ''barcode'' ''avery9999'' '''' '''' ''letter''
       = (Inl (ValueError (''Unknown label format: '' @ ''avery9999'')), [])"
    using unknown_format_rejected[of "''avery9999''" 1 10 "''barcode''" "''''" "''''"
      always_returns "''letter''", THEN conjunct1, THEN mp, OF h]
    by (rule conjunct2)
  with h show ?thesis by simp
qed

subsection \<open>Placement\<close>

text \<open>
  C3. The position \<^verbatim>\<open>generate_pdf\<close> computes for the label with count \<open>i\<close> is
  the \<open>x\<close> and \<open>y\<close> of the placement algorithm of the specification, for every
  format and every index; the column, which the code takes as
  \<open>i mod labels_per_row\<close>, is the column of the index on its sheet.
\<close>

theorem position_placementFor:
  "position g ph i = snd (snd (placementFor g i ph))
   \<and> i mod labels_per_row g = (i mod per_sheet g) mod labels_per_row g
   \<and> placementFor g i ph =
       ((i mod per_sheet g) div labels_per_row g,
        (i mod per_sheet g) mod labels_per_row g,
        left_margin g + of_int ((i mod per_sheet g) mod labels_per_row g)
                          * (label_width g + horizontal_gap g),
        ph - top_margin g - of_int ((i mod per_sheet g) div labels_per_row g + 1) * label_height g
           - of_int ((i mod per_sheet g) div labels_per_row g) * vertical_gap g)"
proof -
  have col: "(i mod per_sheet g) mod labels_per_row g = i mod labels_per_row g"
    unfolding per_sheet_def by (rule mod_mod_cancel) simp
  show ?thesis
    by (simp add: position_def placementFor_def Let_def col per_sheet_def[symmetric])
qed

subsection \<open>The text of a label\<close>

text \<open>
  C9. Whatever the kind of glyph, and whether the glyph is drawn or not,
  \<^verbatim>\<open>draw_label\<close> first sets the font and writes the string \<open>''ID: ''\<close> followed
  by the formatted code, centred at \<open>x + label_width / 2\<close> and \<open>0.15 inch\<close> below
  the top edge \<open>y + label_height\<close>; at most the glyph follows.
\<close>

theorem draw_label_text:
  "\<exists>rest. snd (draw_label lib g c x y cv) =
            c @ [SetFont ''Helvetica-Bold'' 9,
                 DrawCentredString (x + label_width g / 2) (y + label_height g - 0.15 * inch)
                   (''ID: '' @ prefix g @ str_int cv @ suffix g)] @ rest
          \<and> length rest \<le> 1"
proof (cases "glyph_call lib g cv")
  case Returns
  show ?thesis
    unfolding draw_label_Returns[OF Returns]
    by (simp add: text_ops_def format_code_def)
next
  case (Raises err)
  show ?thesis
    unfolding draw_label_Raises[OF Raises]
    by (simp add: text_ops_def format_code_def)
qed

subsection \<open>Labels on the page\<close>

lemma div_less_columns:
  fixes i r c :: int
  assumes "i < r * c" and "0 < r"
  shows "i div r < c"
proof (rule ccontr)
  assume "\<not> i div r < c"
  then have "c \<le> i div r" by simp
  then have "c * r \<le> i div r * r"
    using assms(2) by (simp add: mult_right_mono)
  moreover have "i div r * r + i mod r = i" by simp
  moreover have "0 \<le> i mod r" using assms(2) by simp
  ultimately have "c * r \<le> i" by linarith
  with assms(1) show False by (simp add: mult.commute)
qed

lemma position_on_sheet:
  assumes "0 \<le> i" and "i < per_sheet f" and "0 < labels_per_row f"
  obtains row col where
    "position f ph i =
       (left_margin f + of_int col * (label_width f + horizontal_gap f),
        ph - top_margin f - of_int (row + 1) * label_height f - of_int row * vertical_gap f)"
    and "0 \<le> col" and "col < labels_per_row f" and "col = i mod labels_per_row f"
    and "0 \<le> row" and "row < labels_per_column f"
proof -
  let ?r = "labels_per_row f" and ?c = "labels_per_column f"
  have on_sheet: "i mod (?r * ?c) = i"
    using assms(1,2) by (simp add: per_sheet_def)
  have "i div ?r < ?c"
    using assms(2,3) unfolding per_sheet_def by (rule div_less_columns)
  moreover have "0 \<le> i div ?r"
    using assms(1,3) by (simp add: pos_imp_zdiv_nonneg_iff)
  moreover have "0 \<le> i mod ?r" "i mod ?r < ?r"
    using assms(3) by simp_all
  moreover have "position f ph i =
       (left_margin f + of_int (i mod ?r) * (label_width f + horizontal_gap f),
        ph - top_margin f - of_int (i div ?r + 1) * label_height f
          - of_int (i div ?r) * vertical_gap f)"
    by (simp add: position_def on_sheet Let_def)
  ultimately show ?thesis using that by blast
qed

lemma page_sizes: "letter = (612, 792)" "fst A4 < 595.28" "595.27 < fst A4"
  "snd A4 < 841.89" "841.88 < snd A4"
  by (simp_all add: letter_def A4_def mm_def cm_def inch_def)

lemma letter_neq_A4: "letter \<noteq> A4"
proof
  assume "letter = A4"
  then have "fst A4 = fst letter" by simp
  then have "fst A4 = 612" by (simp only: page_sizes(1) fst_conv)
  with page_sizes(2) show False by simp
qed

lemma x_extent:
  assumes "f \<in> {avery5160, avery5161, avery5163}" and "0 \<le> col" and "col < labels_per_row f"
  shows "0 \<le> left_margin f + of_int col * (label_width f + horizontal_gap f)"
    and "left_margin f + of_int col * (label_width f + horizontal_gap f) + label_width f \<le> 612"
    and "(left_margin f + of_int col * (label_width f + horizontal_gap f) + label_width f \<le> fst A4)
           = (col < labels_per_row f - 1)"
proof -
  have cols: "col = 0 \<or> col = 1 \<or> (col = 2 \<and> f = avery5160)"
    using assms by (auto simp: avery5160_def avery5161_def avery5163_def)
  show "0 \<le> left_margin f + of_int col * (label_width f + horizontal_gap f)"
    using assms(1) cols by (auto simp: avery5160_def avery5161_def avery5163_def inch_def)
  show "left_margin f + of_int col * (label_width f + horizontal_gap f) + label_width f \<le> 612"
    using assms(1) cols by (auto simp: avery5160_def avery5161_def avery5163_def inch_def)
  show "(left_margin f + of_int col * (label_width f + horizontal_gap f) + label_width f \<le> fst A4)
           = (col < labels_per_row f - 1)"
    using assms(1) cols page_sizes(2,3)
    by (auto simp: avery5160_def avery5161_def avery5163_def inch_def)
qed

lemma y_extent:
  assumes "f \<in> {avery5160, avery5161, avery5163}" and "0 \<le> row" and "row < labels_per_column f"
    and "792 \<le> ph"
  shows "0 \<le> ph - top_margin f - of_int (row + 1) * label_height f - of_int row * vertical_gap f"
    and "ph - top_margin f - of_int (row + 1) * label_height f - of_int row * vertical_gap f
           + label_height f \<le> ph"
proof -
  have "0 \<le> (of_int row :: real)" and "(of_int row :: real) \<le> of_int (labels_per_column f - 1)"
    using assms(2,3) by simp_all
  then have r: "0 \<le> (of_int row :: real)"
    "(of_int row :: real) * label_height f \<le> of_int (labels_per_column f - 1) * label_height f"
    using assms(1) by (auto simp: avery5160_def avery5161_def avery5163_def inch_def)
  show "0 \<le> ph - top_margin f - of_int (row + 1) * label_height f - of_int row * vertical_gap f"
    using assms(1,4) r
    by (auto simp: avery5160_def avery5161_def avery5163_def inch_def algebra_simps)
  show "ph - top_margin f - of_int (row + 1) * label_height f - of_int row * vertical_gap f
           + label_height f \<le> ph"
    using assms(1) r(1)
    by (auto simp: avery5160_def avery5161_def avery5163_def inch_def algebra_simps)
qed

lemma letter_size: "fst letter = 612" "snd letter = 792"
  by (simp_all add: letter_def inch_def)

text \<open>
  C4. For the three presets and every index on one sheet, the label lies on a
  letter page: \<open>0 \<le> x\<close>, \<open>x + label_width \<le> page width\<close>, \<open>0 \<le> y\<close> and
  \<open>y + label_height \<le> page height\<close>. On an A4 page the same holds except at the
  right: \<open>x + label_width \<le> page width\<close> holds in every column but the last
  one of the row, and fails in the last one.
\<close>

theorem placement_within_page:
  assumes "f \<in> {avery5160, avery5161, avery5163}" and "ps \<in> {letter, A4}"
    and "0 \<le> i" and "i < per_sheet f"
  shows "0 \<le> fst (position f (snd ps) i)
       \<and> 0 \<le> snd (position f (snd ps) i)
       \<and> snd (position f (snd ps) i) + label_height f \<le> snd ps
       \<and> (fst (position f (snd ps) i) + label_width f \<le> fst ps)
           = (ps = letter \<or> i mod labels_per_row f < labels_per_row f - 1)"
proof -
  have rows: "0 < labels_per_row f"
    using assms(1) by (auto simp: avery5160_def avery5161_def avery5163_def)
  from position_on_sheet[OF assms(3,4) rows, of "snd ps"]
  obtain row col where pos: "position f (snd ps) i =
       (left_margin f + of_int col * (label_width f + horizontal_gap f),
        snd ps - top_margin f - of_int (row + 1) * label_height f - of_int row * vertical_gap f)"
    and col: "0 \<le> col" "col < labels_per_row f" "col = i mod labels_per_row f"
    and row: "0 \<le> row" "row < labels_per_column f"
    by blast
  have high: "792 \<le> snd ps"
    using assms(2) letter_size(2) page_sizes(5) by auto
  note x = x_extent[OF assms(1) col(1,2)]
  note y = y_extent[OF assms(1) row high]
  have wide: "(fst (position f (snd ps) i) + label_width f \<le> fst ps)
           = (ps = letter \<or> i mod labels_per_row f < labels_per_row f - 1)"
  proof (cases "ps = letter")
    case True
    then show ?thesis unfolding pos using x(2) by (simp add: letter_size)
  next
    case False
    then have "ps = A4" using assms(2) by simp
    then show ?thesis unfolding pos using x(3) letter_neq_A4 by (simp add: col(3))
  qed
  have "0 \<le> fst (position f (snd ps) i)" "0 \<le> snd (position f (snd ps) i)"
    "snd (position f (snd ps) i) + label_height f \<le> snd ps"
    unfolding pos using x(1) y by simp_all
  with wide show ?thesis by (intro conjI)
qed

theorem placement_within_page_witness:
  "avery5161 \<in> {avery5160, avery5161, avery5163} \<and> A4 \<in> {letter, A4}
   \<and> (0::int) \<le> 18 \<and> 18 < per_sheet avery5161
   \<and> 0 \<le> fst (position avery5161 (snd A4) 18)
   \<and> 0 \<le> snd (position avery5161 (snd A4) 18)
   \<and> snd (position avery5161 (snd A4) 18) + label_height avery5161 \<le> snd A4
   \<and> fst (position avery5161 (snd A4) 18) + label_width avery5161 \<le> fst A4"
proof -
  have f: "avery5161 \<in> {avery5160, avery5161, avery5163}" and ps: "A4 \<in> {letter, A4}"
    and i: "(0::int) \<le> 18" "18 < per_sheet avery5161"
    by (simp_all add: per_sheet_def avery5161_def)
  have "(18::int) mod labels_per_row avery5161 < labels_per_row avery5161 - 1"
    by (simp add: avery5161_def)
  with placement_within_page[OF f ps i] f ps i show ?thesis
    by simp
qed

text \<open>
  The third label of a row of the preset of thirty ends at \<open>598.5\<close> points,
  to the right of an A4 page, which is less than \<open>595.28\<close> points wide.
\<close>

theorem placement_within_page_counterexample:
  "(0::int) \<le> 2 \<and> 2 < per_sheet avery5160
   \<and> \<not> fst (position avery5160 (snd A4) 2) + label_width avery5160 \<le> fst A4"
proof -
  have "fst (position avery5160 (snd A4) 2) + label_width avery5160 = 598.5"
    by (simp add: position_def avery5160_def inch_def)
  with page_sizes(2) show ?thesis
    by (simp add: per_sheet_def avery5160_def)
qed

subsection \<open>The glyph of a label\<close>

lemma init_sizes:
  assumes "init s e t f px sx = Inr g"
  shows "(label_width g, label_height g) \<in> {(189, 72), (288, 72), (288, 144)}"
  using assms
  by (auto simp: init_def LABEL_FORMATS_def avery5160_def avery5161_def avery5163_def inch_def
      split: if_splits)

text \<open>
  The QR path gives the size it derives to the drawing, which is scaled to
  it: the side is \<open>min label_width label_height \<times> 0.7\<close> (the code's minimum
  of the two products is the same number), and on a registered format the
  square drawn lies inside the rectangle of the label.
\<close>

lemma qr_square_in_label:
  "qr_size g = min (label_width g) (label_height g) * 0.7
   \<and> ((init s e t f px sx :: 'e error + generator) = Inr g \<longrightarrow>
        (code_type g = ''qrcode'' \<longrightarrow> glyph_call (lib :: 'e glyph_library) g cv = Returns \<longrightarrow>
           last (snd (draw_label lib g c x y cv)) =
             RenderDrawing (Drawing (qr_size g) (qr_size g) (format_code g cv))
               (x + (label_width g - qr_size g) / 2) (y + 0.1 * inch))
        \<and> x \<le> x + (label_width g - qr_size g) / 2
        \<and> x + (label_width g - qr_size g) / 2 + qr_size g \<le> x + label_width g
        \<and> y \<le> y + 0.1 * inch
        \<and> y + 0.1 * inch + qr_size g \<le> y + label_height g)"
proof -
  have q: "qr_size g = min (label_width g) (label_height g) * 0.7"
    by (simp add: qr_size_def min_def)
  have drawn: "last (snd (draw_label lib g c x y cv)) =
             RenderDrawing (Drawing (qr_size g) (qr_size g) (format_code g cv))
               (x + (label_width g - qr_size g) / 2) (y + 0.1 * inch)"
    if "code_type g = ''qrcode''" and "glyph_call lib g cv = Returns"
    unfolding draw_label_Returns[OF that(2)]
    by (simp add: glyph_op_def that(1))
  have box: "x \<le> x + (label_width g - qr_size g) / 2
        \<and> x + (label_width g - qr_size g) / 2 + qr_size g \<le> x + label_width g
        \<and> y \<le> y + 0.1 * inch
        \<and> y + 0.1 * inch + qr_size g \<le> y + label_height g"
    if "(init s e t f px sx :: 'e error + generator) = Inr g"
    using init_sizes[OF that] by (auto simp: q inch_def)
  from q drawn box show ?thesis by blast
qed

text \<open>
  The barcode path computes \<open>barcode_width\<close> and uses it for the left offset
  only, which is \<open>0.1 inch\<close> whatever the label: the barcode handed to the
  canvas is built from the value, the bar height and the module width \<open>0.9\<close>.
\<close>

lemma barcode_drawn_at_offset:
  assumes "code_type g \<noteq> ''qrcode''" and "glyph_call lib g cv = Returns"
  shows "last (snd (draw_label lib g c x y cv)) =
           BarcodeDrawOn (format_code g cv) (label_height g * 0.4) 0.9
             (x + 0.1 * inch) (y + 0.2 * inch)"
  unfolding draw_label_Returns[OF assms(2)]
  by (simp add: glyph_op_def assms(1) barcode_height_def barcode_width_def)

text \<open>
  C8. The glyph is to be sized from the label so that it never leaves the
  rectangle of the label: \<open>min label_width label_height \<times> 0.7\<close> for the QR
  drawing, \<open>label_width\<close> less a fixed padding for the barcode. The QR path does
  so. The barcode path does not: for the request of one label with the prefix
  of twenty \<open>A\<close> and the suffix of twenty \<open>B\<close>, the width computed is \<open>174.6\<close>
  points on the label of \<open>189\<close> points and \<open>273.6\<close> points on the label of
  \<open>288\<close> points, and the canvas receives the same barcode of the 41 characters
  on both, with module width \<open>0.9\<close>: its width comes from the value alone.
\<close>

theorem barcode_drawn_without_barcode_width:
  "barcode_width avery5160 = 174.6 \<and> label_width avery5160 = 189
   \<and> snd (generate_labels always_returns 1 1 ''barcode'' ''avery5160''
             ''AAAAAAAAAAAAAAAAAAAA'' ''BBBBBBBBBBBBBBBBBBBB'' ''letter'')
       = [SetFont ''Helvetica-Bold'' 9,
          DrawCentredString 108 745.2 ''ID: AAAAAAAAAAAAAAAAAAAA1BBBBBBBBBBBBBBBBBBBB'',
          BarcodeDrawOn ''AAAAAAAAAAAAAAAAAAAA1BBBBBBBBBBBBBBBBBBBB'' 28.8 0.9 20.7 698.4,
          Save]
   \<and> barcode_width avery5161 = 273.6 \<and> label_width avery5161 = 288
   \<and> snd (generate_labels always_returns 1 1 ''barcode'' ''avery5161''
             ''AAAAAAAAAAAAAAAAAAAA'' ''BBBBBBBBBBBBBBBBBBBB'' ''letter'')
       = [SetFont ''Helvetica-Bold'' 9,
          DrawCentredString 155.25 745.2 ''ID: AAAAAAAAAAAAAAAAAAAA1BBBBBBBBBBBBBBBBBBBB'',
          BarcodeDrawOn ''AAAAAAAAAAAAAAAAAAAA1BBBBBBBBBBBBBBBBBBBB'' 28.8 0.9 18.45 698.4,
          Save]"
proof -
  have w: "barcode_width avery5160 = 174.6" "label_width avery5160 = 189"
    "barcode_width avery5161 = 273.6" "label_width avery5161 = 288"
    by (simp_all add: barcode_width_def avery5160_def avery5161_def inch_def)
  have v: "str_int 1 = ''1''"
    by (simp add: str_int_def str_nat.simps digit_char_def)
  have a: "snd (generate_labels always_returns 1 1 ''barcode'' ''avery5160''
             ''AAAAAAAAAAAAAAAAAAAA'' ''BBBBBBBBBBBBBBBBBBBB'' ''letter'')
       = [SetFont ''Helvetica-Bold'' 9,
          DrawCentredString 108 745.2 ''ID: AAAAAAAAAAAAAAAAAAAA1BBBBBBBBBBBBBBBBBBBB'',
          BarcodeDrawOn ''AAAAAAAAAAAAAAAAAAAA1BBBBBBBBBBBBBBBBBBBB'' 28.8 0.9 20.7 698.4,
          Save]"
    by (simp add: generate_labels_def init_def LABEL_FORMATS_def avery5160_def lower_def
        lower_char_def generate_pdf_def letter_def inch_def position_def draw_label_def
        format_code_def v always_returns_def barcode_width_def barcode_height_def Let_def)
  have b: "snd (generate_labels always_returns 1 1 ''barcode'' ''avery5161''
             ''AAAAAAAAAAAAAAAAAAAA'' ''BBBBBBBBBBBBBBBBBBBB'' ''letter'')
       = [SetFont ''Helvetica-Bold'' 9,
          DrawCentredString 155.25 745.2 ''ID: AAAAAAAAAAAAAAAAAAAA1BBBBBBBBBBBBBBBBBBBB'',
          BarcodeDrawOn ''AAAAAAAAAAAAAAAAAAAA1BBBBBBBBBBBBBBBBBBBB'' 28.8 0.9 18.45 698.4,
          Save]"
    by (simp add: generate_labels_def init_def LABEL_FORMATS_def avery5161_def lower_def
        lower_char_def generate_pdf_def letter_def inch_def position_def draw_label_def
        format_code_def v always_returns_def barcode_width_def barcode_height_def Let_def)
  from w a b show ?thesis by (intro conjI)
qed

end
